theory Spec2Isabelle
  imports Main "HOL-Library.Sublist" "HOL-Library.AList"
begin

section \<open>The streaming response transcoder of server.js\<close>

text \<open>
  The development embeds the streaming branch of the chat-completions handler of
  \<^verbatim>\<open>src/server.js\<close> (lines 224--320): the \<^verbatim>\<open>data\<close>, \<^verbatim>\<open>end\<close> and \<^verbatim>\<open>error\<close>
  handlers registered on \<^verbatim>\<open>response.data\<close>, with the closure variables
  \<^verbatim>\<open>buffer\<close>, \<^verbatim>\<open>reasoningStarted\<close> and \<^verbatim>\<open>hasStarted\<close> they share.

  Text is kept as lists of bytes: an inbound chunk is the bytes of a \<^verbatim>\<open>Buffer\<close>, and a
  JavaScript string is represented by its UTF-8 encoding, which is also what
  \<^verbatim>\<open>res.write\<close> puts on the wire.

  \<^verbatim>\<open>JSON.parse\<close> and \<^verbatim>\<open>JSON.stringify\<close> belong to the runtime, not to the repository.
  The handlers take \<^verbatim>\<open>JSON.parse\<close> as an argument \<open>parse\<close>, which is \<open>None\<close> where it
  throws, and every property holds for any such function; \<^verbatim>\<open>JSON.stringify\<close> enters
  only where the text of a written frame is spelled out (\<open>wire\<close>).
\<close>

subsection \<open>JSON values and the operators the handler applies to them\<close>

text \<open>
  A value produced by \<^verbatim>\<open>JSON.parse\<close>. A number carries the text that
  \<^verbatim>\<open>String(n)\<close> prints for it (so zero, the only falsy number \<^verbatim>\<open>JSON.parse\<close> can
  deliver, is \<open>JNum ''0''\<close>); an object is the list of its own properties in enumeration
  order. \<open>json option\<close> adds \<^verbatim>\<open>undefined\<close> as \<open>None\<close>.
\<close>

datatype json =
    JNull
  | JBool bool
  | JNum string
  | JStr string
  | JArr "json list"
  | JObj "(string \<times> json) list"

text \<open>Truthiness, as \<^verbatim>\<open>if (v)\<close> and \<^verbatim>\<open>v && w\<close> test it.\<close>

fun truthy :: "json \<Rightarrow> bool" where
  "truthy JNull = False"
| "truthy (JBool b) = b"
| "truthy (JNum n) = (n \<noteq> ''0'')"
| "truthy (JStr s) = (s \<noteq> [])"
| "truthy (JArr xs) = True"
| "truthy (JObj kvs) = True"

fun truthy_val :: "json option \<Rightarrow> bool" where
  "truthy_val None = False"
| "truthy_val (Some v) = truthy v"

text \<open>
  The string that \<^verbatim>\<open>'...' + v\<close> appends for a value \<open>v\<close>, \<open>None\<close> when the conversion
  throws a TypeError: an array is joined with commas (null elements print as nothing), an
  object prints as \<^verbatim>\<open>[object Object]\<close> unless an own property \<^verbatim>\<open>toString\<close> (never
  callable in parsed JSON) hides the inherited method.
\<close>

fun js_to_string :: "json \<Rightarrow> string option"
  and js_join :: "json list \<Rightarrow> string option" where
  "js_to_string JNull = Some ''null''"
| "js_to_string (JBool b) = Some (if b then ''true'' else ''false'')"
| "js_to_string (JNum n) = Some n"
| "js_to_string (JStr s) = Some s"
| "js_to_string (JArr xs) = js_join xs"
| "js_to_string (JObj kvs) =
     (if map_of kvs ''toString'' = None then Some ''[object Object]'' else None)"
| "js_join [] = Some []"
| "js_join (x # xs) =
     (case (if x = JNull then Some [] else js_to_string x) of
        None \<Rightarrow> None
      | Some s \<Rightarrow>
          (if xs = [] then Some s
           else (case js_join xs of None \<Rightarrow> None | Some t \<Rightarrow> Some (s @ '','' @ t))))"

text \<open>
  \<^verbatim>\<open>v.k\<close> for a value other than null and a key that no prototype defines
  (\<^verbatim>\<open>choices\<close>, \<^verbatim>\<open>delta\<close>, \<^verbatim>\<open>content\<close>, \<^verbatim>\<open>reasoning_content\<close>): the own property
  of an object, \<^verbatim>\<open>undefined\<close> for any other value. It is also \<^verbatim>\<open>v?.k\<close> for every
  value, null included.
\<close>

fun get_prop :: "json \<Rightarrow> string \<Rightarrow> json option" where
  "get_prop (JObj kvs) k = map_of kvs k"
| "get_prop v k = None"

text \<open>
  \<^verbatim>\<open>c?.[0]?.delta\<close>: element 0 of an array or the property \<^verbatim>\<open>"0"\<close> of an object,
  then its \<^verbatim>\<open>delta\<close>. For null the chain short-circuits; a number or a boolean has no
  element 0; element 0 of a string is a one-character string, which has no \<^verbatim>\<open>delta\<close>.
\<close>

fun delta_of_choices :: "json \<Rightarrow> json option" where
  "delta_of_choices (JArr xs) = (case xs of [] \<Rightarrow> None | x # _ \<Rightarrow> get_prop x ''delta'')"
| "delta_of_choices (JObj cs) =
     (case map_of cs ''0'' of None \<Rightarrow> None | Some x \<Rightarrow> get_prop x ''delta'')"
| "delta_of_choices c = None"

text \<open>\<^verbatim>\<open>data.choices?.[0]?.delta\<close> (line 257), for \<open>data\<close> other than null.\<close>

definition get_delta :: "json \<Rightarrow> json option" where
  "get_delta data =
     (case get_prop data ''choices'' of None \<Rightarrow> None | Some c \<Rightarrow> delta_of_choices c)"

text \<open>
  \<^verbatim>\<open>v.k = w\<close> and \<^verbatim>\<open>delete v.k\<close> as \<^verbatim>\<open>JSON.stringify\<close> sees them afterwards. On an
  object the assignment replaces the property in place or appends it; on an array it adds
  a property that is not an element, and on a primitive (the file is not in strict mode)
  it does nothing: neither shows in the serialisation.
\<close>

fun set_prop :: "json \<Rightarrow> string \<Rightarrow> json \<Rightarrow> json" where
  "set_prop (JObj kvs) k w = JObj (AList.update k w kvs)"
| "set_prop v k w = v"

fun delete_prop :: "json \<Rightarrow> string \<Rightarrow> json" where
  "delete_prop (JObj kvs) k = JObj (AList.delete k kvs)"
| "delete_prop v k = v"

text \<open>
  The handler mutates \<^verbatim>\<open>data.choices[0].delta\<close> in place. The parsed value is a tree
  without sharing, so the mutation is the replacement of the delta at its path.
\<close>

fun put_delta_elem :: "json \<Rightarrow> json \<Rightarrow> json" where
  "put_delta_elem d' (JObj es) =
     (case map_of es ''delta'' of None \<Rightarrow> JObj es | Some d \<Rightarrow> JObj (AList.update ''delta'' d' es))"
| "put_delta_elem d' x = x"

fun put_delta_choices :: "json \<Rightarrow> json \<Rightarrow> json" where
  "put_delta_choices d' (JArr xs) =
     (case xs of [] \<Rightarrow> JArr [] | x # rest \<Rightarrow> JArr (put_delta_elem d' x # rest))"
| "put_delta_choices d' (JObj cs) =
     (case map_of cs ''0'' of
        None \<Rightarrow> JObj cs
      | Some x \<Rightarrow> JObj (AList.update ''0'' (put_delta_elem d' x) cs))"
| "put_delta_choices d' c = c"

fun put_delta :: "json \<Rightarrow> json \<Rightarrow> json" where
  "put_delta d' (JObj kvs) =
     (case map_of kvs ''choices'' of
        None \<Rightarrow> JObj kvs
      | Some c \<Rightarrow> JObj (AList.update ''choices'' (put_delta_choices d' c) kvs))"
| "put_delta d' v = v"

subsection \<open>The reasoning/content combiner (lines 261--290)\<close>

text \<open>
  Lines 262--269: \<^verbatim>\<open>combinedContent\<close> and \<^verbatim>\<open>reasoningStarted\<close> after the two branches
  on \<^verbatim>\<open>reasoning\<close>; \<open>None\<close> when \<^verbatim>\<open>'<think>\n' + reasoning\<close> throws, which happens
  before the flag is assigned.
\<close>

fun reasoning_step :: "bool \<Rightarrow> json option \<Rightarrow> (bool \<times> json) option" where
  "reasoning_step started None = Some (started, JStr [])"
| "reasoning_step started (Some r) =
     (if truthy r \<and> \<not> started then
        (case js_to_string r of
           None \<Rightarrow> None
         | Some s \<Rightarrow> Some (True, JStr (''<think>\<newline>'' @ s)))
      else if truthy r then Some (started, r)
      else Some (started, JStr []))"

text \<open>
  Lines 271--276: the two branches on \<^verbatim>\<open>content\<close>, from the flag and the
  \<^verbatim>\<open>combinedContent\<close> that lines 262--269 left. Both \<^verbatim>\<open>+=\<close> are string
  concatenations: in the first the right operand is a string, and the second is reached
  only with \<^verbatim>\<open>combinedContent = ''\<close> (lemma \<open>reasoning_step_closed\<close>). A throw leaves the
  flag as it was.
\<close>

fun content_step :: "bool \<Rightarrow> json \<Rightarrow> json option \<Rightarrow> bool \<times> json option" where
  "content_step started cc None = (started, Some cc)"
| "content_step started cc (Some c) =
     (if truthy c \<and> started then
        (case js_to_string c of
           None \<Rightarrow> (started, None)
         | Some t \<Rightarrow>
             (case js_to_string cc of
                None \<Rightarrow> (started, None)
              | Some s \<Rightarrow> (False, Some (JStr (s @ ''\<newline></think>\<newline>\<newline>'' @ t)))))
      else if truthy c then
        (case js_to_string cc of
           None \<Rightarrow> (started, None)
         | Some s \<Rightarrow>
             (case js_to_string c of
                None \<Rightarrow> (started, None)
              | Some t \<Rightarrow> (started, Some (JStr (s @ t)))))
      else (started, Some cc))"

text \<open>
  Lines 262--276 together: from the flag, \<^verbatim>\<open>reasoning\<close> and \<^verbatim>\<open>content\<close> to the new
  flag and \<^verbatim>\<open>combinedContent\<close> (\<open>None\<close>: a TypeError was thrown).
\<close>

definition combine :: "bool \<Rightarrow> json option \<Rightarrow> json option \<Rightarrow> bool \<times> json option" where
  "combine started reasoning content =
     (case reasoning_step started reasoning of
        None \<Rightarrow> (started, None)
      | Some (started1, cc) \<Rightarrow> content_step started1 cc content)"

text \<open>
  \<^verbatim>\<open>const SHOW_REASONING = true\<close> (line 115). The handler below takes the toggle as an
  argument, so that the branch for the disabled mode (lines 282--290) can be stated too.
\<close>

definition SHOW_REASONING :: bool where
  "SHOW_REASONING = True"

text \<open>
  Lines 258--290 on the delta \<open>d\<close> (a truthy value): the new flag and the delta as it is
  serialised afterwards, \<open>None\<close> when a TypeError left the block.
\<close>

definition rewrite_delta :: "bool \<Rightarrow> bool \<Rightarrow> json \<Rightarrow> bool \<times> json option" where
  "rewrite_delta show_reasoning started d =
     (let reasoning = get_prop d ''reasoning_content'';
          content = get_prop d ''content''
      in if show_reasoning then
           (case combine started reasoning content of
              (started', None) \<Rightarrow> (started', None)
            | (started', Some cc) \<Rightarrow>
                (started',
                 Some (if truthy cc
                       then delete_prop (set_prop d ''content'' cc) ''reasoning_content''
                       else d)))
         else
           (started,
            Some (delete_prop
                    (set_prop d ''content''
                       (case content of
                          None \<Rightarrow> JStr []
                        | Some c \<Rightarrow> if truthy c then c else JStr []))
                    ''reasoning_content'')))"

text \<open>
  Lines 257--291 on the parsed \<open>data\<close>: the new flag and the object handed to
  \<^verbatim>\<open>JSON.stringify\<close>, \<open>None\<close> when the block throws (\<^verbatim>\<open>data.choices\<close> on null, or a
  string conversion), which the \<^verbatim>\<open>catch\<close> of line 295 receives.
\<close>

definition transform :: "bool \<Rightarrow> bool \<Rightarrow> json \<Rightarrow> bool \<times> json option" where
  "transform show_reasoning started data =
     (if data = JNull then (started, None)
      else (case get_delta data of
              None \<Rightarrow> (started, Some data)
            | Some d \<Rightarrow>
                if truthy d then
                  (case rewrite_delta show_reasoning started d of
                     (started', None) \<Rightarrow> (started', None)
                   | (started', Some d') \<Rightarrow> (started', Some (put_delta d' data)))
                else (started, Some data)))"

subsection \<open>Strings: decoding a chunk, splitting lines, classifying a line\<close>

text \<open>
  \<^verbatim>\<open>chunk.toString()\<close> (line 242): the UTF-8 decoding of the bytes of one chunk. A
  well-formed sequence is kept; every maximal ill-formed part, and a sequence cut off by
  the end of the chunk, becomes U+FFFD (the bytes EF BF BD).
\<close>

definition byte :: "char \<Rightarrow> nat" where
  "byte c = of_char c"

definition in_range :: "char \<Rightarrow> nat \<Rightarrow> nat \<Rightarrow> bool" where
  "in_range c lo hi = (lo \<le> byte c \<and> byte c \<le> hi)"

definition replacement :: string where
  "replacement = [CHR 0xEF, CHR 0xBF, CHR 0xBD]"

definition second_lo :: "char \<Rightarrow> nat" where
  "second_lo b = (if byte b = 0xE0 then 0xA0 else if byte b = 0xF0 then 0x90 else 0x80)"

definition second_hi :: "char \<Rightarrow> nat" where
  "second_hi b = (if byte b = 0xED then 0x9F else if byte b = 0xF4 then 0x8F else 0xBF)"

fun toString :: "string \<Rightarrow> string" where
  "toString [] = []"
| "toString (b # bs) =
     (if byte b < 0x80 then b # toString bs
      else if in_range b 0xC2 0xDF then
        (case bs of
           [] \<Rightarrow> replacement
         | c # cs \<Rightarrow>
             if in_range c 0x80 0xBF then b # c # toString cs
             else replacement @ toString bs)
      else if in_range b 0xE0 0xEF then
        (case bs of
           [] \<Rightarrow> replacement
         | c # cs \<Rightarrow>
             if in_range c (second_lo b) (second_hi b) then
               (case cs of
                  [] \<Rightarrow> replacement
                | d # ds \<Rightarrow>
                    if in_range d 0x80 0xBF then b # c # d # toString ds
                    else replacement @ toString cs)
             else replacement @ toString bs)
      else if in_range b 0xF0 0xF4 then
        (case bs of
           [] \<Rightarrow> replacement
         | c # cs \<Rightarrow>
             if in_range c (second_lo b) (second_hi b) then
               (case cs of
                  [] \<Rightarrow> replacement
                | d # ds \<Rightarrow>
                    if in_range d 0x80 0xBF then
                      (case ds of
                         [] \<Rightarrow> replacement
                       | e # es \<Rightarrow>
                           if in_range e 0x80 0xBF then b # c # d # e # toString es
                           else replacement @ toString ds)
                    else replacement @ toString cs)
             else replacement @ toString bs)
      else replacement @ toString bs)"

text \<open>\<^verbatim>\<open>s.split('\n')\<close> (line 243): never empty, the last element is what follows the
  last newline.\<close>

fun split_nl :: "string \<Rightarrow> string list" where
  "split_nl [] = [[]]"
| "split_nl (c # cs) =
     (if c = CHR 0x0A then [] # split_nl cs
      else (case split_nl cs of [] \<Rightarrow> [[c]] | l # ls \<Rightarrow> (c # l) # ls))"

text \<open>\<^verbatim>\<open>lines.pop()\<close> (line 244): the last element, \<^verbatim>\<open>undefined\<close> on an empty array, and
  the array without it.\<close>

definition pop :: "'a list \<Rightarrow> 'a option \<times> 'a list" where
  "pop xs = (if xs = [] then (None, []) else (Some (last xs), butlast xs))"

text \<open>\<^verbatim>\<open>x || ''\<close> for a string or \<^verbatim>\<open>undefined\<close>.\<close>

fun or_empty :: "string option \<Rightarrow> string" where
  "or_empty None = []"
| "or_empty (Some s) = (if s = [] then [] else s)"

text \<open>
  The number of bytes of the white space or line terminator character at the head of a
  string, 0 when there is none: what \<^verbatim>\<open>trim()\<close> removes (TAB, LF, VT, FF, CR, SP, U+00A0,
  U+1680, U+2000..U+200A, U+2028, U+2029, U+202F, U+205F, U+3000, U+FEFF).
\<close>

definition ws_len :: "string \<Rightarrow> nat" where
  "ws_len s =
     (case map byte s of
        [] \<Rightarrow> 0
      | a # r1 \<Rightarrow>
          if a = 0x09 \<or> a = 0x0A \<or> a = 0x0B \<or> a = 0x0C \<or> a = 0x0D \<or> a = 0x20 then 1
          else (case r1 of
                  [] \<Rightarrow> 0
                | b # r2 \<Rightarrow>
                    if a = 0xC2 \<and> b = 0xA0 then 2
                    else (case r2 of
                            [] \<Rightarrow> 0
                          | c # r3 \<Rightarrow>
                              if (a = 0xE1 \<and> b = 0x9A \<and> c = 0x80)
                               \<or> (a = 0xE2 \<and> b = 0x80 \<and> 0x80 \<le> c \<and> c \<le> 0x8A)
                               \<or> (a = 0xE2 \<and> b = 0x80 \<and> (c = 0xA8 \<or> c = 0xA9 \<or> c = 0xAF))
                               \<or> (a = 0xE2 \<and> b = 0x81 \<and> c = 0x9F)
                               \<or> (a = 0xE3 \<and> b = 0x80 \<and> c = 0x80)
                               \<or> (a = 0xEF \<and> b = 0xBB \<and> c = 0xBF)
                              then 3 else 0)))"

text \<open>\<^verbatim>\<open>!line.trim()\<close> (line 247): the line is made of white space only.\<close>

fun blank :: "string \<Rightarrow> bool" where
  "blank s =
     (if s = [] then True
      else if ws_len s = 0 then False
      else blank (drop (ws_len s) s))"

text \<open>\<^verbatim>\<open>s.includes(p)\<close>: \<open>p\<close> occurs somewhere in \<open>s\<close>.\<close>

fun includes_str :: "string \<Rightarrow> string \<Rightarrow> bool" where
  "includes_str [] p = (p = [])"
| "includes_str (c # cs) p = (prefix p (c # cs) \<or> includes_str cs p)"

subsection \<open>The sink and the state of one request\<close>

text \<open>
  One constructor for each call of \<^verbatim>\<open>res.write\<close> in the handlers, with the value the
  call interpolates; \<open>wire\<close> is the text the call writes, given \<^verbatim>\<open>JSON.stringify\<close>.
\<close>

datatype frame =
    Done
  | Json json
  | Raw string
  | CloseThink
  | ErrorFrame string

fun wire :: "(json \<Rightarrow> string) \<Rightarrow> frame \<Rightarrow> string" where
  "wire stringify Done = ''data: [DONE]\<newline>\<newline>''"
| "wire stringify (Json data) = ''data: '' @ stringify data @ ''\<newline>\<newline>''"
| "wire stringify (Raw line) = line @ ''\<newline>\<newline>''"
| \<open>wire stringify CloseThink =
     ''data: {"choices":[{"delta":{"content":"'' @ [CHR 0x5C] @ ''n</think>"}}]}\<newline>\<newline>''\<close>
| \<open>wire stringify (ErrorFrame msg) = ''data: {"error": "'' @ msg @ ''"}\<newline>\<newline>''\<close>

text \<open>
  The closure variables of lines 231--233 and the response: the frames written so far, in
  order, and whether \<^verbatim>\<open>res.end()\<close> was called.
\<close>

record stream_state =
  buffer :: string
  reasoningStarted :: bool
  hasStarted :: bool
  written :: "frame list"
  ended :: bool

definition init_state :: stream_state where
  "init_state =
     \<lparr>buffer = [], reasoningStarted = False, hasStarted = False, written = [], ended = False\<rparr>"

text \<open>The argument of the \<^verbatim>\<open>error\<close> handler; only \<^verbatim>\<open>message\<close> is read.\<close>

record js_error =
  name :: string
  message :: string
  stack :: string

datatype signal = End | Error js_error

subsection \<open>The handlers\<close>

text \<open>
  The callback of \<^verbatim>\<open>lines.forEach\<close> (lines 246--300). \<open>parse\<close> is \<^verbatim>\<open>JSON.parse\<close>,
  \<open>None\<close> where it throws a SyntaxError.
\<close>

definition on_line ::
  "(string \<Rightarrow> json option) \<Rightarrow> bool \<Rightarrow> string \<Rightarrow> stream_state \<Rightarrow> stream_state" where
  "on_line parse show_reasoning line st =
     (if blank line then st
      else if prefix ''data: '' line then
        (if includes_str line ''[DONE]'' then st\<lparr>written := written st @ [Done]\<rparr>
         else
           (case parse (drop 6 line) of
              None \<Rightarrow> st\<lparr>written := written st @ [Raw line]\<rparr>
            | Some data \<Rightarrow>
                (case transform show_reasoning (reasoningStarted st) data of
                   (started', None) \<Rightarrow>
                     st\<lparr>reasoningStarted := started', written := written st @ [Raw line]\<rparr>
                 | (started', Some data') \<Rightarrow>
                     st\<lparr>reasoningStarted := started', written := written st @ [Json data']\<rparr>)))
      else st)"

definition process_lines ::
  "(string \<Rightarrow> json option) \<Rightarrow> bool \<Rightarrow> string list \<Rightarrow> stream_state \<Rightarrow> stream_state" where
  "process_lines parse show_reasoning ls st = foldl (\<lambda>s l. on_line parse show_reasoning l s) st ls"

text \<open>
  Lines 242--244, the line framer: the chunk is decoded and appended to the buffer, the
  buffer is split at newlines, and what follows the last newline is the new buffer. The
  result is the complete lines and the new buffer.
\<close>

definition framer :: "string \<Rightarrow> string \<Rightarrow> string list \<times> string" where
  "framer buf chunk =
     (let (popped, ls) = pop (split_nl (buf @ toString chunk)) in (ls, or_empty popped))"

text \<open>
  The \<^verbatim>\<open>data\<close> handler (lines 235--304). Nothing in it throws outside the inner
  \<^verbatim>\<open>try\<close>, so the outer \<^verbatim>\<open>catch\<close> of line 301 is never entered.
\<close>

definition on_data ::
  "(string \<Rightarrow> json option) \<Rightarrow> bool \<Rightarrow> string \<Rightarrow> stream_state \<Rightarrow> stream_state" where
  "on_data parse show_reasoning chunk st =
     (let st1 = (if hasStarted st then st else st\<lparr>hasStarted := True\<rparr>);
          (ls, buf) = framer (buffer st1) chunk;
          st2 = st1\<lparr>buffer := buf\<rparr>
      in process_lines parse show_reasoning ls st2)"

text \<open>The \<^verbatim>\<open>end\<close> handler (lines 306--313).\<close>

definition on_end :: "stream_state \<Rightarrow> stream_state" where
  "on_end st =
     (let st1 = (if reasoningStarted st then st\<lparr>written := written st @ [CloseThink]\<rparr> else st)
      in st1\<lparr>written := written st1 @ [Done], ended := True\<rparr>)"

text \<open>The \<^verbatim>\<open>error\<close> handler (lines 315--320).\<close>

definition on_error :: "js_error \<Rightarrow> stream_state \<Rightarrow> stream_state" where
  "on_error err st = st\<lparr>written := written st @ [ErrorFrame (message err), Done], ended := True\<rparr>"

text \<open>
  One request: the source delivers the chunks in order and then one signal.
\<close>

definition feed ::
  "(string \<Rightarrow> json option) \<Rightarrow> bool \<Rightarrow> string list \<Rightarrow> stream_state \<Rightarrow> stream_state" where
  "feed parse show_reasoning chunks st = foldl (\<lambda>s c. on_data parse show_reasoning c s) st chunks"

fun finish :: "signal \<Rightarrow> stream_state \<Rightarrow> stream_state" where
  "finish End st = on_end st"
| "finish (Error err) st = on_error err st"

definition request ::
  "(string \<Rightarrow> json option) \<Rightarrow> bool \<Rightarrow> string list \<Rightarrow> signal \<Rightarrow> stream_state" where
  "request parse show_reasoning chunks sig = finish sig (feed parse show_reasoning chunks init_state)"

text \<open>
  The source is an event emitter: lines 235, 306 and 315 register one handler for each
  kind of event, and every event the source emits is dispatched to its handler. The
  handlers hold no guard of their own against an event that follows a signal. What the
  response does with a write after \<^verbatim>\<open>res.end()\<close> is not modelled: the properties speak of
  sources that emit at most one signal and nothing after it.
\<close>

datatype event = Chunk string | Signal signal

fun on_event ::
  "(string \<Rightarrow> json option) \<Rightarrow> bool \<Rightarrow> event \<Rightarrow> stream_state \<Rightarrow> stream_state" where
  "on_event parse show_reasoning (Chunk chunk) st = on_data parse show_reasoning chunk st"
| "on_event parse show_reasoning (Signal sig) st = finish sig st"

definition deliver ::
  "(string \<Rightarrow> json option) \<Rightarrow> bool \<Rightarrow> event list \<Rightarrow> stream_state \<Rightarrow> stream_state" where
  "deliver parse show_reasoning events st =
     foldl (\<lambda>s e. on_event parse show_reasoning e s) st events"

subsection \<open>Notions of the properties\<close>

text \<open>
  The framer over a sequence of chunks, from a given buffer: all complete lines it yields,
  in order, and the buffer that remains after the last chunk.
\<close>

fun framer_all :: "string \<Rightarrow> string list \<Rightarrow> string list \<times> string" where
  "framer_all buf [] = ([], buf)"
| "framer_all buf (chunk # chunks) =
     (let (ls, buf1) = framer buf chunk;
          (rest, buf2) = framer_all buf1 chunks
      in (ls @ rest, buf2))"

text \<open>\<^verbatim>\<open>xs.join('\n')\<close>: the inverse of \<open>split_nl\<close>.\<close>

fun join_nl :: "string list \<Rightarrow> string" where
  "join_nl [] = []"
| "join_nl [l] = l"
| "join_nl (l # k # ls) = l @ CHR 0x0A # join_nl (k # ls)"

text \<open>
  The line of the protocol that ends a stream, its payload being the termination
  sentinel; and the number of sentinels among the frames written.
\<close>

definition is_sentinel_line :: "string \<Rightarrow> bool" where
  "is_sentinel_line line = (line = ''data: [DONE]'')"

definition sentinels :: "frame list \<Rightarrow> nat" where
  "sentinels ws = length (filter (\<lambda>f. f = Done) ws)"

text \<open>
  The lines that the test of line 250 takes out of decoding: the data lines in which the
  sentinel text occurs anywhere. In a list of lines without stray sentinel text these are
  the sentinel lines only.
\<close>

definition short_circuited :: "string \<Rightarrow> bool" where
  "short_circuited line = (prefix ''data: '' line \<and> includes_str line ''[DONE]'')"

fun no_stray_sentinel_text :: "string list \<Rightarrow> bool" where
  "no_stray_sentinel_text [] = True"
| "no_stray_sentinel_text (l # ls) =
     ((if short_circuited l then is_sentinel_line l else True) \<and> no_stray_sentinel_text ls)"

text \<open>
  A source that keeps the contract of a stream: it emits at most one signal, and nothing
  after it. With it the chunks and the signal of a list of events, and the number of
  times a finalizing handler (\<^verbatim>\<open>end\<close> or \<^verbatim>\<open>error\<close>) is run for the list.
\<close>

fun source_ok :: "event list \<Rightarrow> bool" where
  "source_ok [] = True"
| "source_ok (Chunk chunk # es) = source_ok es"
| "source_ok (Signal sig # es) = (es = [])"

fun chunks_of :: "event list \<Rightarrow> string list" where
  "chunks_of [] = []"
| "chunks_of (Chunk chunk # es) = chunk # chunks_of es"
| "chunks_of (Signal sig # es) = chunks_of es"

fun signal_of :: "event list \<Rightarrow> signal option" where
  "signal_of [] = None"
| "signal_of (Chunk chunk # es) = signal_of es"
| "signal_of (Signal sig # es) = Some sig"

fun finalizer_runs :: "event list \<Rightarrow> nat" where
  "finalizer_runs [] = 0"
| "finalizer_runs (Chunk chunk # es) = finalizer_runs es"
| "finalizer_runs (Signal sig # es) = Suc (finalizer_runs es)"

text \<open>The frames the \<^verbatim>\<open>end\<close> or \<^verbatim>\<open>error\<close> handler writes, from the signal and the flag.\<close>

fun finish_frames :: "signal \<Rightarrow> bool \<Rightarrow> frame list" where
  "finish_frames End started = (if started then [CloseThink, Done] else [Done])"
| "finish_frames (Error err) started = [ErrorFrame (message err), Done]"

fun is_error_frame :: "frame \<Rightarrow> bool" where
  "is_error_frame (ErrorFrame msg) = True"
| "is_error_frame f = False"

text \<open>
  The text a client appends for a frame: the string \<^verbatim>\<open>choices[0].delta.content\<close> of the
  object the frame carries (for the closing frame of line 309 the string its literal
  encodes), nothing for the sentinel, a raw line or an error frame.
\<close>

fun frame_text :: "frame \<Rightarrow> string" where
  "frame_text (Json data) =
     (case get_delta data of
        None \<Rightarrow> []
      | Some d \<Rightarrow> (case get_prop d ''content'' of Some (JStr s) \<Rightarrow> s | _ \<Rightarrow> []))"
| "frame_text CloseThink = ''\<newline></think>''"
| "frame_text f = []"

text \<open>
  The number of places of a text at which a marker starts, and the opening and closing
  markers in the texts of a list of frames.
\<close>

fun count_sub :: "string \<Rightarrow> string \<Rightarrow> nat" where
  "count_sub m [] = 0"
| "count_sub m (x # xs) = (if prefix m (x # xs) then 1 else 0) + count_sub m xs"

definition opens :: "frame list \<Rightarrow> nat" where
  "opens ws = sum_list (map (\<lambda>f. count_sub ''<think>'' (frame_text f)) ws)"

definition closes :: "frame list \<Rightarrow> nat" where
  "closes ws = sum_list (map (\<lambda>f. count_sub ''</think>'' (frame_text f)) ws)"

text \<open>
  The reasoning blocks of an outbound stream never nest: in every prefix of the frames
  there are at least as many opening markers as closing ones, and at most one more. The
  frames are balanced against the flag when moreover the opening markers exceed the
  closing ones by one exactly when the flag is set.
\<close>

definition never_nested :: "frame list \<Rightarrow> bool" where
  "never_nested ws =
     list_all (\<lambda>n. closes (take n ws) \<le> opens (take n ws) \<and> opens (take n ws) \<le> closes (take n ws) + 1)
       [0..<Suc (length ws)]"

definition balanced :: "frame list \<Rightarrow> bool \<Rightarrow> bool" where
  "balanced ws started = (never_nested ws \<and> opens ws = closes ws + (if started then 1 else 0))"

text \<open>
  A field of a delta as the backend protocol types it: absent, null or a string. Its
  fragment is the text it brings, \<open>None\<close> when the field is absent, null or the empty
  string.
\<close>

fun text_field :: "json option \<Rightarrow> bool" where
  "text_field None = True"
| "text_field (Some JNull) = True"
| "text_field (Some (JStr s)) = True"
| "text_field (Some v) = False"

fun fragment :: "json option \<Rightarrow> string option" where
  "fragment (Some (JStr s)) = (if s = [] then None else Some s)"
| "fragment v = None"

text \<open>
  The truth table of section 4.3 of the specification, in its words: from the reasoning
  fragment and the content fragment of a delta (\<open>None\<close>: not present) and the
  reasoning-open flag, the text to emit and the flag afterwards.
\<close>

fun spec_truth_table :: "string option \<Rightarrow> string option \<Rightarrow> bool \<Rightarrow> string \<times> bool" where
  "spec_truth_table (Some r) None False = (''<think>\<newline>'' @ r, True)"
| "spec_truth_table (Some r) None True = (r, True)"
| "spec_truth_table (Some r) (Some c) False =
     (''<think>\<newline>'' @ r @ ''\<newline></think>\<newline>\<newline>'' @ c, False)"
| "spec_truth_table (Some r) (Some c) True = (r @ ''\<newline></think>\<newline>\<newline>'' @ c, False)"
| "spec_truth_table None (Some c) True = (''\<newline></think>\<newline>\<newline>'' @ c, False)"
| "spec_truth_table None (Some c) False = (c, False)"
| "spec_truth_table None None opened = ([], opened)"

text \<open>
  A plain event: the two fields of its delta are absent, null or strings, and the strings
  do not themselves contain the markers.
\<close>

definition marker_free :: "string \<Rightarrow> bool" where
  "marker_free s = (count_sub ''<think>'' s = 0 \<and> count_sub ''</think>'' s = 0)"

fun plain_field :: "json option \<Rightarrow> bool" where
  "plain_field None = True"
| "plain_field (Some JNull) = True"
| "plain_field (Some (JStr s)) = marker_free s"
| "plain_field (Some v) = False"

definition plain_event :: "json \<Rightarrow> bool" where
  "plain_event data =
     (case get_delta data of
        None \<Rightarrow> True
      | Some d \<Rightarrow>
          plain_field (get_prop d ''reasoning_content'') \<and> plain_field (get_prop d ''content''))"

text \<open>
  The object the handler decodes from a line, if it decodes one: the line is a data line
  without the sentinel text and \<^verbatim>\<open>JSON.parse\<close> accepts what follows the prefix. The
  lines of a stream are plain when every object decoded from them is.
\<close>

definition decoded :: "(string \<Rightarrow> json option) \<Rightarrow> string \<Rightarrow> json option" where
  "decoded parse line =
     (if prefix ''data: '' line \<and> \<not> includes_str line ''[DONE]'' then parse (drop 6 line)
      else None)"

fun plain_lines :: "(string \<Rightarrow> json option) \<Rightarrow> string list \<Rightarrow> bool" where
  "plain_lines parse [] = True"
| "plain_lines parse (l # ls) =
     ((case decoded parse l of None \<Rightarrow> True | Some data \<Rightarrow> plain_event data)
      \<and> plain_lines parse ls)"

text \<open>
  The object \<^verbatim>\<open>{"choices":[{"delta":{...}}]}\<close> with the given properties of the delta,
  and \<^verbatim>\<open>JSON.parse\<close> on the payloads of the scenarios below (\<open>None\<close> elsewhere, where
  the scenarios do not call it or where it throws).
\<close>

definition delta_frame :: "(string \<times> json) list \<Rightarrow> json" where
  "delta_frame kvs = JObj [(''choices'', JArr [JObj [(''delta'', JObj kvs)]])]"

definition sample_parse :: "string \<Rightarrow> json option" where
  \<open>sample_parse s =
     (if s = ''{"choices":[{"delta":{"reasoning_content":"ab"}}]}''
        then Some (delta_frame [(''reasoning_content'', JStr ''ab'')])
      else if s = ''{"choices":[{"delta":{"content":"X"}}]}''
        then Some (delta_frame [(''content'', JStr ''X'')])
      else if s = ''{"choices":[{"delta":{"reasoning_content":""}}]}''
        then Some (delta_frame [(''reasoning_content'', JStr [])])
      else None)\<close>

section \<open>Properties\<close>

subsection \<open>Lines and the framer\<close>

declare blank.simps [simp del]

lemma ws_len_d: "ws_len (CHR ''d'' # l) = 0"
  by (simp add: ws_len_def byte_def split: list.splits)

lemma blank_not_data: "blank line \<Longrightarrow> \<not> prefix ''data: '' line"
  by (cases line) (auto simp: ws_len_d blank.simps[of "CHR ''d'' # l" for l])

lemma split_nl_nonempty [simp]: "split_nl s \<noteq> []"
  by (induction s) (auto split: list.splits)

lemma join_split: "join_nl (split_nl s) = s"
proof (induction s)
  case Nil
  then show ?case by simp
next
  case (Cons c cs)
  obtain l ls where sp: "split_nl cs = l # ls"
    using split_nl_nonempty[of cs] by (cases "split_nl cs") auto
  show ?case using Cons sp by (cases ls) auto
qed

lemma split_nl_append:
  "split_nl (a @ b) = butlast (split_nl a) @ split_nl (last (split_nl a) @ b)"
proof (induction a)
  case Nil
  then show ?case by simp
next
  case (Cons c cs)
  obtain l ls where sp: "split_nl cs = l # ls"
    using split_nl_nonempty[of cs] by (cases "split_nl cs") auto
  show ?case
  proof (cases "c = CHR 0x0A")
    case True
    then show ?thesis using Cons by simp
  next
    case False
    show ?thesis
    proof (cases ls)
      case Nil
      then show ?thesis using Cons sp False by (auto split: list.splits)
    next
      case (Cons k ks)
      then show ?thesis using Cons.IH sp False by (auto split: list.splits)
    qed
  qed
qed

lemma split_nl_no_newline: "CHR 0x0A \<notin> set s \<Longrightarrow> split_nl s = [s]"
  by (induction s) auto

lemma last_split_no_newline: "CHR 0x0A \<notin> set (last (split_nl s))"
proof (induction s)
  case Nil
  then show ?case by simp
next
  case (Cons c cs)
  obtain l ls where sp: "split_nl cs = l # ls"
    using split_nl_nonempty[of cs] by (cases "split_nl cs") auto
  show ?case using Cons sp by (cases ls) auto
qed

lemma framer_eq:
  "framer buf chunk =
     (butlast (split_nl (buf @ toString chunk)), last (split_nl (buf @ toString chunk)))"
  by (simp add: framer_def pop_def)

lemma framer_all_decoded:
  assumes "CHR 0x0A \<notin> set buf"
  shows "framer_all buf chunks =
     (butlast (split_nl (buf @ concat (map toString chunks))),
      last (split_nl (buf @ concat (map toString chunks))))"
  using assms
proof (induction chunks arbitrary: buf)
  case Nil
  then show ?case by (simp add: split_nl_no_newline)
next
  case (Cons c cs)
  let ?b1 = "last (split_nl (buf @ toString c))"
  have nb: "CHR 0x0A \<notin> set ?b1" by (rule last_split_no_newline)
  have sp: "split_nl (buf @ toString c @ concat (map toString cs)) =
      butlast (split_nl (buf @ toString c)) @ split_nl (?b1 @ concat (map toString cs))"
    using split_nl_append[of "buf @ toString c" "concat (map toString cs)"] by simp
  show ?case
    using Cons.IH[OF nb] by (simp add: framer_eq sp butlast_append)
qed

lemma toString_ascii: "\<forall>c\<in>set bs. byte c < 0x80 \<Longrightarrow> toString bs = bs"
  by (induction bs) auto

subsection \<open>Reading and replacing the delta\<close>

lemma get_prop_delta_put_elem:
  "get_prop x ''delta'' = Some d \<Longrightarrow> get_prop (put_delta_elem d' x) ''delta'' = Some d'"
  by (cases x) (auto simp: update_conv')

lemma delta_of_choices_put:
  "delta_of_choices c = Some d \<Longrightarrow> delta_of_choices (put_delta_choices d' c) = Some d'"
  by (cases c) (auto simp: update_conv' get_prop_delta_put_elem split: list.splits option.splits)

lemma get_delta_put:
  "get_delta data = Some d \<Longrightarrow> get_delta (put_delta d' data) = Some d'"
  by (cases data) (auto simp: get_delta_def update_conv' delta_of_choices_put split: option.splits)

lemma put_delta_elem_same:
  "get_prop x ''delta'' = Some d \<Longrightarrow> put_delta_elem d x = x"
  by (cases x) (auto simp: update_triv)

lemma put_delta_choices_same:
  "delta_of_choices c = Some d \<Longrightarrow> put_delta_choices d c = c"
  by (cases c) (auto simp: update_triv put_delta_elem_same split: list.splits option.splits)

lemma put_delta_same:
  "get_delta data = Some d \<Longrightarrow> put_delta d data = data"
  by (cases data) (auto simp: get_delta_def update_triv put_delta_choices_same split: option.splits)

lemma get_prop_falsy: "\<not> truthy d \<Longrightarrow> get_prop d k = None"
  by (cases d) auto

lemma get_prop_set_delete:
  "k \<noteq> k' \<Longrightarrow> get_prop (delete_prop (set_prop (JObj kvs) k w) k') k = Some w"
  by (simp add: delete_conv' update_conv')

lemma get_prop_delete: "get_prop (delete_prop d k) k = None"
  by (cases d) (auto simp: delete_conv')

subsection \<open>The combiner and the markers it writes\<close>

text \<open>
  A truthy reasoning fragment always makes \<^verbatim>\<open>combinedContent\<close> truthy; and on a delta of the
  protocol each frame changes the difference between opening and closing markers
  written by exactly the change of the flag.
\<close>

lemma reasoning_step_closed:
  "reasoning_step started reasoning = Some (False, cc) \<Longrightarrow> cc = JStr []"
  by (cases reasoning) (auto split: if_splits option.splits)

lemma combine_truthy_reasoning:
  "truthy_val r \<Longrightarrow> combine started r c = (started', Some cc) \<Longrightarrow> truthy cc"
  by (cases r; cases c)
     (auto simp: combine_def split: if_splits option.splits)

lemma combine_empty_reasoning: "combine started (Some (JStr [])) c = combine started None c"
  by (simp add: combine_def)

lemma combine_empty_content: "combine started r (Some (JStr [])) = combine started r None"
  by (cases r) (auto simp: combine_def split: option.splits)

lemma count_sub_append_nl:
  assumes "m \<noteq> []" "CHR 0x0A \<notin> set m"
  shows "count_sub m (a @ CHR 0x0A # b) = count_sub m a + count_sub m b"
proof (induction a)
  case Nil
  from assms show ?case by (cases m) auto
next
  case (Cons y a)
  have "prefix m ((y # a) @ CHR 0x0A # b) = prefix m (y # a)"
  proof
    assume "prefix m ((y # a) @ CHR 0x0A # b)"
    then consider "prefix m (y # a)" | us where "m = (y # a) @ us" "prefix us (CHR 0x0A # b)"
      unfolding prefix_append by blast
    then show "prefix m (y # a)"
    proof cases
      case 1
      then show ?thesis .
    next
      case 2
      then show ?thesis using assms(2) by (cases us) auto
    qed
  next
    assume "prefix m (y # a)"
    then show "prefix m ((y # a) @ CHR 0x0A # b)" by (rule prefix_prefix)
  qed
  then show ?case using Cons by simp
qed

lemma step_counts:
  assumes "plain_field r" "plain_field c" "combine started r c = (started', out)"
  shows "\<exists>tx. out = Some (JStr tx) \<and>
           count_sub ''<think>'' tx + (if started then 1 else 0)
             = count_sub ''</think>'' tx + (if started' then (1::nat) else 0)"
  using assms
  by (cases r rule: plain_field.cases; cases c rule: plain_field.cases)
     (auto simp: combine_def marker_free_def count_sub_append_nl split: if_splits)

lemma frame_text_put:
  "get_delta data = Some d \<Longrightarrow>
   frame_text (Json (put_delta d' data)) =
     (case get_prop d' ''content'' of Some (JStr s) \<Rightarrow> s | _ \<Rightarrow> [])"
  by (simp add: get_delta_put)

lemma rewrite_counts:
  assumes pr: "plain_field (get_prop d ''reasoning_content'')"
      and pc: "plain_field (get_prop d ''content'')"
      and rw: "rewrite_delta True started d = (started', out)"
  shows "\<exists>d' tx. out = Some d' \<and>
           (case get_prop d' ''content'' of Some (JStr s) \<Rightarrow> s | _ \<Rightarrow> []) = tx \<and>
           count_sub ''<think>'' tx + (if started then 1 else 0)
             = count_sub ''</think>'' tx + (if started' then (1::nat) else 0)"
proof -
  obtain st1 o1 where cb: "combine started (get_prop d ''reasoning_content'') (get_prop d ''content'') = (st1, o1)"
    by (cases "combine started (get_prop d ''reasoning_content'') (get_prop d ''content'')") auto
  from step_counts[OF pr pc cb] obtain tx where
    o1: "o1 = Some (JStr tx)" and
    cnt: "count_sub ''<think>'' tx + (if started then 1 else 0)
             = count_sub ''</think>'' tx + (if st1 then (1::nat) else 0)"
    by blast
  from rw cb o1 have st: "started' = st1"
    and out: "out = Some (if tx \<noteq> [] then delete_prop (set_prop d ''content'' (JStr tx)) ''reasoning_content'' else d)"
    by (auto simp: rewrite_delta_def)
  show ?thesis
  proof (cases "tx = []")
    case True
    with out have o: "out = Some d" by simp
    from pc have mf: "count_sub ''<think>'' (case get_prop d ''content'' of Some (JStr s) \<Rightarrow> s | _ \<Rightarrow> []) = 0
        \<and> count_sub ''</think>'' (case get_prop d ''content'' of Some (JStr s) \<Rightarrow> s | _ \<Rightarrow> []) = 0"
      by (cases "get_prop d ''content''" rule: plain_field.cases) (auto simp: marker_free_def)
    from cnt True have "(if started then 1 else 0) = (if st1 then (1::nat) else 0)" by simp
    with o mf st show ?thesis by simp
  next
    case False
    have "\<exists>kvs. d = JObj kvs"
    proof (rule ccontr)
      assume "\<not> (\<exists>kvs. d = JObj kvs)"
      then have "get_prop d ''reasoning_content'' = None" "get_prop d ''content'' = None"
        by (cases d; simp)+
      with cb o1 False show False by (simp add: combine_def)
    qed
    then obtain kvs where d: "d = JObj kvs" by blast
    have "get_prop (delete_prop (set_prop d ''content'' (JStr tx)) ''reasoning_content'') ''content'' = Some (JStr tx)"
      unfolding d by (rule get_prop_set_delete) simp
    with out False cnt st show ?thesis by simp
  qed
qed

lemma transform_counts:
  assumes pe: "plain_event data" and tr: "transform True started data = (started', out)"
  shows "case out of
           None \<Rightarrow> started' = started
         | Some data' \<Rightarrow>
             count_sub ''<think>'' (frame_text (Json data')) + (if started then 1 else 0)
               = count_sub ''</think>'' (frame_text (Json data')) + (if started' then (1::nat) else 0)"
proof (cases "data = JNull")
  case True
  with tr show ?thesis by (simp add: transform_def)
next
  case nn: False
  show ?thesis
  proof (cases "get_delta data")
    case None
    with tr nn show ?thesis by (auto simp: transform_def)
  next
    case (Some d)
    show ?thesis
    proof (cases "truthy d")
      case False
      then have "get_prop d ''content'' = None" by (rule get_prop_falsy)
      with tr nn Some False show ?thesis by (auto simp: transform_def)
    next
      case True
      from pe Some have pr: "plain_field (get_prop d ''reasoning_content'')"
        and pc: "plain_field (get_prop d ''content'')"
        by (simp_all add: plain_event_def)
      obtain st1 o1 where rw: "rewrite_delta True started d = (st1, o1)"
        by (cases "rewrite_delta True started d") auto
      from rewrite_counts[OF pr pc rw] obtain d' tx where
        o1: "o1 = Some d'" and
        txe: "(case get_prop d' ''content'' of Some (JStr s) \<Rightarrow> s | _ \<Rightarrow> []) = tx" and
        cnt: "count_sub ''<think>'' tx + (if started then 1 else 0)
             = count_sub ''</think>'' tx + (if st1 then (1::nat) else 0)"
        by blast
      from tr nn Some True rw o1 have "started' = st1" "out = Some (put_delta d' data)"
        by (auto simp: transform_def)
      with cnt txe frame_text_put[OF Some, of d'] show ?thesis by simp
    qed
  qed
qed

subsection \<open>The flag counts the open block\<close>

lemma opens_snoc: "opens (ws @ [f]) = opens ws + count_sub ''<think>'' (frame_text f)"
  by (simp add: opens_def)

lemma closes_snoc: "closes (ws @ [f]) = closes ws + count_sub ''</think>'' (frame_text f)"
  by (simp add: closes_def)

lemma never_nested_snoc:
  "never_nested (ws @ [f]) =
     (never_nested ws \<and> closes (ws @ [f]) \<le> opens (ws @ [f]) \<and> opens (ws @ [f]) \<le> closes (ws @ [f]) + 1)"
  by (simp add: never_nested_def list_all_iff Ball_def less_Suc_eq_le) blast

lemma balanced_snoc:
  assumes "balanced ws started"
      and "count_sub ''<think>'' (frame_text f) + (if started then 1 else 0)
             = count_sub ''</think>'' (frame_text f) + (if started' then (1::nat) else 0)"
  shows "balanced (ws @ [f]) started'"
  using assms by (auto simp: balanced_def never_nested_snoc opens_snoc closes_snoc split: if_splits)

lemma balanced_init: "balanced [] False"
  by (simp add: balanced_def never_nested_def opens_def closes_def)

subsection \<open>What a line leaves alone\<close>

lemma on_line_buffer [simp]: "buffer (on_line parse sr l st) = buffer st"
  by (auto simp: on_line_def split: option.splits prod.splits)

lemma process_lines_Nil [simp]: "process_lines parse sr [] st = st"
  by (simp add: process_lines_def)

lemma process_lines_Cons [simp]:
  "process_lines parse sr (l # ls) st = process_lines parse sr ls (on_line parse sr l st)"
  by (simp add: process_lines_def)

lemma process_lines_buffer [simp]: "buffer (process_lines parse sr ls st) = buffer st"
  by (induction ls arbitrary: st) auto

subsection \<open>The invariant of the reasoning markers\<close>

lemma on_line_balanced:
  assumes b: "balanced (written st) (reasoningStarted st)"
      and p: "case decoded parse l of None \<Rightarrow> True | Some data \<Rightarrow> plain_event data"
  shows "balanced (written (on_line parse True l st)) (reasoningStarted (on_line parse True l st))"
proof -
  have keep: "\<And>f. frame_text f = [] \<Longrightarrow> balanced (written st @ [f]) (reasoningStarted st)"
    by (rule balanced_snoc[where started = "reasoningStarted st"]) (use b in auto)
  show ?thesis
  proof (cases "blank l \<or> \<not> prefix ''data: '' l")
    case True
    then show ?thesis using b by (auto simp: on_line_def)
  next
    case data: False
    show ?thesis
    proof (cases "includes_str l ''[DONE]''")
      case True
      then show ?thesis using data keep[of Done] by (simp add: on_line_def)
    next
      case nd: False
      show ?thesis
      proof (cases "parse (drop 6 l)")
        case None
        then show ?thesis using data nd keep[of "Raw l"] by (simp add: on_line_def)
      next
        case (Some d)
        with p data nd have pe: "plain_event d" by (simp add: decoded_def)
        obtain st1 out where tr: "transform True (reasoningStarted st) d = (st1, out)"
          by (cases "transform True (reasoningStarted st) d") auto
        show ?thesis
        proof (cases out)
          case None
          with transform_counts[OF pe tr] have "st1 = reasoningStarted st" by simp
          then show ?thesis using data nd Some tr None keep[of "Raw l"] by (simp add: on_line_def)
        next
          case (Some d')
          have "balanced (written st @ [Json d']) st1"
            by (rule balanced_snoc[where started = "reasoningStarted st"])
               (use b transform_counts[OF pe tr] Some in auto)
          then show ?thesis using data nd \<open>parse (drop 6 l) = Some d\<close> tr Some by (simp add: on_line_def)
        qed
      qed
    qed
  qed
qed

lemma process_lines_balanced:
  "balanced (written st) (reasoningStarted st) \<Longrightarrow> plain_lines parse ls \<Longrightarrow>
   balanced (written (process_lines parse True ls st)) (reasoningStarted (process_lines parse True ls st))"
  by (induction ls arbitrary: st) (auto intro: on_line_balanced)

lemma plain_lines_append: "plain_lines parse (ls @ ks) = (plain_lines parse ls \<and> plain_lines parse ks)"
  by (induction ls) auto

lemma on_data_buffer: "buffer (on_data parse sr chunk st) = snd (framer (buffer st) chunk)"
  by (simp add: on_data_def Let_def split: prod.splits)

lemma on_data_unfold:
  "on_data parse sr chunk st =
     process_lines parse sr (fst (framer (buffer st) chunk))
        ((if hasStarted st then st else st\<lparr>hasStarted := True\<rparr>)\<lparr>buffer := snd (framer (buffer st) chunk)\<rparr>)"
  by (simp add: on_data_def Let_def split: prod.splits)

lemma framer_all_Cons:
  "framer_all buf (c # cs) =
     (fst (framer buf c) @ fst (framer_all (snd (framer buf c)) cs),
      snd (framer_all (snd (framer buf c)) cs))"
  by (simp add: Let_def split: prod.splits)

lemma feed_Nil [simp]: "feed parse sr [] st = st"
  by (simp add: feed_def)

lemma feed_Cons [simp]: "feed parse sr (c # cs) st = feed parse sr cs (on_data parse sr c st)"
  by (simp add: feed_def)

lemma on_data_balanced:
  assumes "balanced (written st) (reasoningStarted st)"
      and "plain_lines parse (fst (framer (buffer st) chunk))"
  shows "balanced (written (on_data parse True chunk st)) (reasoningStarted (on_data parse True chunk st))"
  unfolding on_data_unfold using assms by (intro process_lines_balanced) auto

lemma feed_balanced:
  "balanced (written st) (reasoningStarted st) \<Longrightarrow>
   plain_lines parse (fst (framer_all (buffer st) chunks)) \<Longrightarrow>
   balanced (written (feed parse True chunks st)) (reasoningStarted (feed parse True chunks st))"
proof (induction chunks arbitrary: st)
  case Nil
  then show ?case by simp
next
  case (Cons c cs)
  from Cons.prems(2) have p1: "plain_lines parse (fst (framer (buffer st) c))"
    and p2: "plain_lines parse (fst (framer_all (snd (framer (buffer st) c)) cs))"
    by (simp_all add: framer_all_Cons plain_lines_append del: framer_all.simps)
  have b1: "balanced (written (on_data parse True c st)) (reasoningStarted (on_data parse True c st))"
    using Cons.prems(1) p1 by (rule on_data_balanced)
  have "buffer (on_data parse True c st) = snd (framer (buffer st) c)"
    by (rule on_data_buffer)
  with p2 have "plain_lines parse (fst (framer_all (buffer (on_data parse True c st)) cs))" by simp
  from Cons.IH[OF b1 this] show ?case by simp
qed

lemma on_end_balanced:
  assumes "balanced (written st) (reasoningStarted st)"
  shows "balanced (written (on_end st)) False"
proof (cases "reasoningStarted st")
  case True
  have "balanced (written st @ [CloseThink]) False"
    by (rule balanced_snoc[where started = True]) (use assms True in auto)
  then have "balanced ((written st @ [CloseThink]) @ [Done]) False"
    by (rule balanced_snoc[where started = False]) auto
  with True show ?thesis by (simp add: on_end_def)
next
  case False
  have "balanced (written st @ [Done]) False"
    by (rule balanced_snoc[where started = False]) (use assms False in auto)
  with False show ?thesis by (simp add: on_end_def)
qed

lemma request_end_balanced:
  assumes "plain_lines parse (fst (framer_all [] chunks))"
  shows "balanced (written (request parse True chunks End)) False"
proof -
  have "balanced (written init_state) (reasoningStarted init_state)"
    by (simp add: init_state_def balanced_init)
  moreover have "plain_lines parse (fst (framer_all (buffer init_state) chunks))"
    using assms by (simp add: init_state_def)
  ultimately have "balanced (written (feed parse True chunks init_state))
      (reasoningStarted (feed parse True chunks init_state))"
    by (rule feed_balanced)
  then show ?thesis unfolding request_def finish.simps by (rule on_end_balanced)
qed

subsection \<open>Sentinels and the finalizer\<close>

lemma sentinels_snoc: "sentinels (ws @ [f]) = sentinels ws + (if f = Done then 1 else 0)"
  by (simp add: sentinels_def)

lemma on_line_sentinel:
  "short_circuited l \<Longrightarrow> on_line parse sr l st = st\<lparr>written := written st @ [Done]\<rparr>"
  by (auto simp: on_line_def short_circuited_def dest: blank_not_data)

lemma on_line_sentinels:
  "sentinels (written (on_line parse sr l st)) = sentinels (written st) + (if short_circuited l then 1 else 0)"
  by (auto simp: on_line_def short_circuited_def sentinels_snoc dest: blank_not_data
      split: option.splits prod.splits)

lemma process_lines_sentinels:
  "sentinels (written (process_lines parse sr ls st)) = sentinels (written st) + length (filter short_circuited ls)"
  by (induction ls arbitrary: st) (auto simp: on_line_sentinels)

lemma feed_sentinels:
  "sentinels (written (feed parse sr chunks st)) =
     sentinels (written st) + length (filter short_circuited (fst (framer_all (buffer st) chunks)))"
proof (induction chunks arbitrary: st)
  case Nil
  then show ?case by simp
next
  case (Cons c cs)
  have "sentinels (written (on_data parse sr c st)) =
      sentinels (written st) + length (filter short_circuited (fst (framer (buffer st) c)))"
    by (simp add: on_data_unfold process_lines_sentinels)
  then show ?case
    using Cons.IH[of "on_data parse sr c st"]
    by (simp add: framer_all_Cons on_data_buffer del: framer_all.simps)
qed

lemma finish_written:
  "written (finish sig st) = written st @ finish_frames sig (reasoningStarted st)"
  by (cases sig) (auto simp: on_end_def on_error_def)

lemma finish_ended: "ended (finish sig st)"
  by (cases sig) (auto simp: on_end_def on_error_def Let_def)

lemma on_line_no_error_frame:
  "length (filter is_error_frame (written (on_line parse sr l st))) = length (filter is_error_frame (written st))"
  by (auto simp: on_line_def split: option.splits prod.splits)

lemma process_lines_no_error_frame:
  "length (filter is_error_frame (written (process_lines parse sr ls st))) = length (filter is_error_frame (written st))"
  by (induction ls arbitrary: st) (auto simp: on_line_no_error_frame)

lemma feed_no_error_frame:
  "length (filter is_error_frame (written (feed parse sr chunks st))) = length (filter is_error_frame (written st))"
  by (induction chunks arbitrary: st) (auto simp: on_data_unfold process_lines_no_error_frame)

lemma on_line_ended [simp]: "ended (on_line parse sr l st) = ended st"
  by (auto simp: on_line_def split: option.splits prod.splits)

lemma process_lines_ended [simp]: "ended (process_lines parse sr ls st) = ended st"
  by (induction ls arbitrary: st) auto

lemma on_data_ended [simp]: "ended (on_data parse sr c st) = ended st"
  by (simp add: on_data_unfold)

lemma feed_ended [simp]: "ended (feed parse sr chunks st) = ended st"
  by (induction chunks arbitrary: st) auto

lemma is_sentinel_line_short_circuited: "is_sentinel_line l \<Longrightarrow> short_circuited l"
  by (simp add: is_sentinel_line_def short_circuited_def)

lemma filter_no_stray:
  "no_stray_sentinel_text ls \<Longrightarrow> filter short_circuited ls = filter is_sentinel_line ls"
  by (induction ls) (auto dest: is_sentinel_line_short_circuited split: if_splits)

lemma deliver_source_ok:
  "source_ok events \<Longrightarrow>
   deliver parse sr events st =
     (case signal_of events of
        None \<Rightarrow> feed parse sr (chunks_of events) st
      | Some sig \<Rightarrow> finish sig (feed parse sr (chunks_of events) st))"
proof (induction events arbitrary: st)
  case Nil
  then show ?case by (simp add: deliver_def)
next
  case (Cons e es)
  show ?case
  proof (cases e)
    case (Chunk c)
    have "source_ok es" using Cons.prems Chunk by simp
    from Cons.IH[OF this, of "on_data parse sr c st"] show ?thesis
      unfolding Chunk by (simp add: deliver_def split: option.splits)
  next
    case (Signal sig)
    with Cons.prems show ?thesis by (simp add: deliver_def)
  qed
qed

lemma finalizer_runs_source_ok:
  "source_ok events \<Longrightarrow>
   finalizer_runs events = (case signal_of events of None \<Rightarrow> 0 | Some sig \<Rightarrow> 1)"
proof (induction events)
  case Nil
  then show ?case by simp
next
  case (Cons e es)
  then show ?case by (cases e) auto
qed

subsection \<open>C1: the combiner and the truth table\<close>

lemma combine_table:
  assumes "text_field r" "text_field c"
  shows "combine started r c =
           (snd (spec_truth_table (fragment r) (fragment c) started),
            Some (JStr (fst (spec_truth_table (fragment r) (fragment c) started))))"
  using assms
  by (cases r rule: text_field.cases; cases c rule: text_field.cases; cases started)
     (auto simp: combine_def)

lemma fragment_Some_obj: "fragment (get_prop d k) \<noteq> None \<Longrightarrow> \<exists>kvs. d = JObj kvs"
  by (cases d) auto

lemma transform_table:
  assumes gd: "get_delta data = Some d"
      and tr: "text_field (get_prop d ''reasoning_content'')"
      and tc: "text_field (get_prop d ''content'')"
  shows "\<exists>data'. transform True started data =
             (snd (spec_truth_table (fragment (get_prop d ''reasoning_content''))
                     (fragment (get_prop d ''content'')) started), Some data') \<and>
           (if fst (spec_truth_table (fragment (get_prop d ''reasoning_content''))
                     (fragment (get_prop d ''content'')) started) = []
            then data' = data
            else get_delta data' =
                   Some (delete_prop (set_prop d ''content''
                     (JStr (fst (spec_truth_table (fragment (get_prop d ''reasoning_content''))
                        (fragment (get_prop d ''content'')) started)))) ''reasoning_content'')
               \<and> frame_text (Json data') =
                   fst (spec_truth_table (fragment (get_prop d ''reasoning_content''))
                     (fragment (get_prop d ''content'')) started))"
proof -
  let ?r = "get_prop d ''reasoning_content''" and ?c = "get_prop d ''content''"
  let ?tt = "spec_truth_table (fragment ?r) (fragment ?c) started"
  have nn: "data \<noteq> JNull" using gd by (auto simp: get_delta_def)
  have cb: "combine started ?r ?c = (snd ?tt, Some (JStr (fst ?tt)))"
    by (rule combine_table[OF tr tc])
  show ?thesis
  proof (cases "truthy d")
    case False
    then have "?r = None" "?c = None" by (simp_all add: get_prop_falsy)
    then show ?thesis using gd nn False by (simp add: transform_def)
  next
    case td: True
    show ?thesis
    proof (cases "fst ?tt = []")
      case True
      then show ?thesis
        using gd nn td cb by (simp add: transform_def rewrite_delta_def put_delta_same)
    next
      case False
      have "fragment ?r \<noteq> None \<or> fragment ?c \<noteq> None"
        using False by (cases "fragment ?r"; cases "fragment ?c") auto
      then obtain kvs where d: "d = JObj kvs" using fragment_Some_obj by blast
      have "get_prop (delete_prop (set_prop d ''content'' (JStr (fst ?tt))) ''reasoning_content'')
              ''content'' = Some (JStr (fst ?tt))"
        unfolding d by (rule get_prop_set_delete) simp
      then show ?thesis
        using gd nn td cb False by (simp add: transform_def rewrite_delta_def get_delta_put)
    qed
  qed
qed

text \<open>
  Claim C1. With reasoning display enabled, the combiner is the transition function of
  the truth table of the specification, a fragment being present when the field is a
  non-empty string (and not present when the field is absent, null or empty). For every
  parsed event with a delta whose two fields are absent, null or strings, lines 262--276
  compute the text and the flag of the table; when the text is empty the frame written is
  the inbound object, unmodified, and otherwise its delta is the inbound delta with
  \<^verbatim>\<open>content\<close> set to the text and \<^verbatim>\<open>reasoning_content\<close> removed. The three-frame
  scenario of the specification writes \<^verbatim>\<open><think>\nab\<close>, then \<^verbatim>\<open>\n</think>\n\nX\<close>, then
  the sentinel.
\<close>

theorem combiner_truth_table:
  assumes tr: "text_field r" and tc: "text_field c"
      and gd: "get_delta data = Some d"
      and fr: "get_prop d ''reasoning_content'' = r"
      and fc: "get_prop d ''content'' = c"
      and p1: \<open>parse ''{"choices":[{"delta":{"reasoning_content":"ab"}}]}''
                 = Some (delta_frame [(''reasoning_content'', JStr ''ab'')])\<close>
      and p2: \<open>parse ''{"choices":[{"delta":{"content":"X"}}]}''
                 = Some (delta_frame [(''content'', JStr ''X'')])\<close>
  shows \<open>combine started r c =
           (snd (spec_truth_table (fragment r) (fragment c) started),
            Some (JStr (fst (spec_truth_table (fragment r) (fragment c) started))))
       \<and> (\<exists>data'. transform True started data =
                      (snd (spec_truth_table (fragment r) (fragment c) started), Some data') \<and>
            (if fst (spec_truth_table (fragment r) (fragment c) started) = [] then data' = data
             else get_delta data' =
                    Some (delete_prop (set_prop d ''content''
                      (JStr (fst (spec_truth_table (fragment r) (fragment c) started))))
                      ''reasoning_content'')
                \<and> frame_text (Json data') = fst (spec_truth_table (fragment r) (fragment c) started)))
       \<and> written (feed parse True
            [''data: {"choices":[{"delta":{"reasoning_content":"ab"}}]}\<newline>'',
             ''data: {"choices":[{"delta":{"content":"X"}}]}\<newline>'',
             ''data: [DONE]\<newline>''] init_state)
          = [Json (delta_frame [(''content'', JStr ''<think>\<newline>ab'')]),
             Json (delta_frame [(''content'', JStr ''\<newline></think>\<newline>\<newline>X'')]),
             Done]\<close>
proof -
  have scen: \<open>written (feed parse True
            [''data: {"choices":[{"delta":{"reasoning_content":"ab"}}]}\<newline>'',
             ''data: {"choices":[{"delta":{"content":"X"}}]}\<newline>'',
             ''data: [DONE]\<newline>''] init_state)
          = [Json (delta_frame [(''content'', JStr ''<think>\<newline>ab'')]),
             Json (delta_frame [(''content'', JStr ''\<newline></think>\<newline>\<newline>X'')]),
             Done]\<close>
    using p1 p2
    by (simp add: on_data_def framer_def on_line_def init_state_def pop_def byte_def
        blank.simps ws_len_def delta_frame_def transform_def get_delta_def rewrite_delta_def
        combine_def)
  have tr': "text_field (get_prop d ''reasoning_content'')"
    and tc': "text_field (get_prop d ''content'')"
    using tr tc fr fc by simp_all
  from combine_table[OF tr tc, of started] transform_table[OF gd tr' tc', of started] scen
  show ?thesis unfolding fr fc by blast
qed

theorem combiner_truth_table_witness:
  \<open>combine False (Some (JStr ''ab'')) None = (True, Some (JStr ''<think>\<newline>ab''))
   \<and> transform True False (delta_frame [(''reasoning_content'', JStr ''ab'')])
       = (True, Some (delta_frame [(''content'', JStr ''<think>\<newline>ab'')]))
   \<and> map frame_text (written (feed sample_parse True
            [''data: {"choices":[{"delta":{"reasoning_content":"ab"}}]}\<newline>'',
             ''data: {"choices":[{"delta":{"content":"X"}}]}\<newline>'',
             ''data: [DONE]\<newline>''] init_state))
       = [''<think>\<newline>ab'', ''\<newline></think>\<newline>\<newline>X'', []]\<close>
proof -
  have gd: "get_delta (delta_frame [(''reasoning_content'', JStr ''ab'')])
      = Some (JObj [(''reasoning_content'', JStr ''ab'')])"
    by (simp add: delta_frame_def get_delta_def)
  have tr: "text_field (Some (JStr ''ab''))" and tc: "text_field None" by simp_all
  have fr: "get_prop (JObj [(''reasoning_content'', JStr ''ab'')]) ''reasoning_content''
      = Some (JStr ''ab'')"
    and fc: "get_prop (JObj [(''reasoning_content'', JStr ''ab'')]) ''content'' = None"
    by simp_all
  have p1: \<open>sample_parse ''{"choices":[{"delta":{"reasoning_content":"ab"}}]}''
                 = Some (delta_frame [(''reasoning_content'', JStr ''ab'')])\<close>
   and p2: \<open>sample_parse ''{"choices":[{"delta":{"content":"X"}}]}''
                 = Some (delta_frame [(''content'', JStr ''X'')])\<close>
    by (simp_all add: sample_parse_def)
  from combiner_truth_table[where parse = sample_parse and started = False, OF tr tc gd fr fc p1 p2]
  show ?thesis
    by (auto simp: delta_frame_def get_delta_def transform_def rewrite_delta_def combine_def)
qed

subsection \<open>C2: closure of the reasoning markers\<close>

text \<open>
  Claim C2 (as amended). With reasoning display enabled, for every sequence of chunks that
  the source ends with the natural end signal, and whose decoded deltas carry
  \<^verbatim>\<open>reasoning_content\<close> and \<^verbatim>\<open>content\<close> only as absent, null or strings free of the
  markers: the frames written hold as many \<^verbatim>\<open><think>\<close> as \<^verbatim>\<open></think>\<close> markers, the
  auto-close frame of the \<^verbatim>\<open>end\<close> handler included, and in every prefix of the frames
  the opening markers are at least as many as the closing ones and at most one more.
\<close>

theorem reasoning_closure_natural_end:
  assumes "plain_lines parse (fst (framer_all [] chunks))"
  shows "opens (written (request parse True chunks End)) = closes (written (request parse True chunks End))
       \<and> never_nested (written (request parse True chunks End))"
  using request_end_balanced[OF assms] by (simp add: balanced_def)

theorem reasoning_closure_natural_end_witness:
  \<open>plain_lines sample_parse (fst (framer_all []
       [''data: {"choices":[{"delta":{"reasoning_content":"ab"}}]}\<newline>'']))
   \<and> written (request sample_parse True
       [''data: {"choices":[{"delta":{"reasoning_content":"ab"}}]}\<newline>''] End)
       = [Json (delta_frame [(''content'', JStr ''<think>\<newline>ab'')]), CloseThink, Done]
   \<and> opens (written (request sample_parse True
       [''data: {"choices":[{"delta":{"reasoning_content":"ab"}}]}\<newline>''] End))
     = closes (written (request sample_parse True
       [''data: {"choices":[{"delta":{"reasoning_content":"ab"}}]}\<newline>''] End))
   \<and> never_nested (written (request sample_parse True
       [''data: {"choices":[{"delta":{"reasoning_content":"ab"}}]}\<newline>''] End))\<close>
proof -
  have h: \<open>plain_lines sample_parse (fst (framer_all []
       [''data: {"choices":[{"delta":{"reasoning_content":"ab"}}]}\<newline>'']))\<close>
    by (simp add: framer_def pop_def byte_def sample_parse_def delta_frame_def plain_event_def
        get_delta_def marker_free_def decoded_def)
  have w: \<open>written (request sample_parse True
       [''data: {"choices":[{"delta":{"reasoning_content":"ab"}}]}\<newline>''] End)
       = [Json (delta_frame [(''content'', JStr ''<think>\<newline>ab'')]), CloseThink, Done]\<close>
    by (simp add: request_def on_data_def framer_def on_line_def init_state_def
      pop_def byte_def blank.simps ws_len_def sample_parse_def delta_frame_def transform_def
      get_delta_def rewrite_delta_def combine_def on_end_def)
  from reasoning_closure_natural_end[OF h] h w show ?thesis by simp
qed

text \<open>
  The claim as stated covers every inbound sequence. When the source signals an error
  while a reasoning block is open, the \<^verbatim>\<open>error\<close> handler writes no closing frame: one
  reasoning frame followed by the error signal leaves one opening marker and no closing
  marker in the sink.
\<close>

theorem reasoning_closure_error_counterexample:
  \<open>opens (written (request sample_parse SHOW_REASONING
       [''data: {"choices":[{"delta":{"reasoning_content":"ab"}}]}\<newline>'']
       (Error \<lparr>name = ''Error'', message = ''aborted'', stack = []\<rparr>))) = 1
   \<and> closes (written (request sample_parse SHOW_REASONING
       [''data: {"choices":[{"delta":{"reasoning_content":"ab"}}]}\<newline>'']
       (Error \<lparr>name = ''Error'', message = ''aborted'', stack = []\<rparr>))) = 0\<close>
  by (simp add: request_def SHOW_REASONING_def on_data_def framer_def on_line_def init_state_def
      pop_def byte_def blank.simps ws_len_def sample_parse_def delta_frame_def transform_def
      get_delta_def rewrite_delta_def combine_def on_error_def opens_def closes_def)

subsection \<open>C3: when \<^verbatim>\<open>reasoning_content\<close> is removed\<close>

text \<open>
  Claim C3 (as amended). For every parsed event with a delta that is re-emitted: with
  reasoning display disabled the outbound delta has no \<^verbatim>\<open>reasoning_content\<close>; with
  reasoning display enabled the field is removed whenever the combined text is non-empty,
  and otherwise the event is forwarded unmodified. In every mode the outbound delta
  carries no truthy (non-empty) \<^verbatim>\<open>reasoning_content\<close>.
\<close>

theorem reasoning_stripped_when_text:
  assumes gd: "get_delta data = Some d" and td: "truthy d"
      and tr: "transform sr started data = (started', Some data')"
  shows "\<exists>d'. get_delta data' = Some d'
           \<and> \<not> truthy_val (get_prop d' ''reasoning_content'')
           \<and> (\<not> sr \<longrightarrow> get_prop d' ''reasoning_content'' = None)
           \<and> (sr \<longrightarrow> (\<exists>cc. combine started (get_prop d ''reasoning_content'') (get_prop d ''content'')
                               = (started', Some cc)
                          \<and> (if truthy cc then get_prop d' ''reasoning_content'' = None
                              else data' = data)))"
proof -
  have nn: "data \<noteq> JNull" using gd by (auto simp: get_delta_def)
  show ?thesis
  proof (cases sr)
    case False
    with tr gd td nn have "data' = put_delta (delete_prop (set_prop d ''content''
        (case get_prop d ''content'' of None \<Rightarrow> JStr [] | Some c \<Rightarrow> if truthy c then c else JStr []))
        ''reasoning_content'') data"
      by (auto simp: transform_def rewrite_delta_def)
    then show ?thesis using False gd by (simp add: get_delta_put get_prop_delete)
  next
    case True
    obtain st1 o1 where cb:
      "combine started (get_prop d ''reasoning_content'') (get_prop d ''content'') = (st1, o1)"
      by (cases "combine started (get_prop d ''reasoning_content'') (get_prop d ''content'')") auto
    from tr gd td nn True cb obtain cc where o1: "o1 = Some cc" and st: "st1 = started'"
      and d': "data' = put_delta (if truthy cc
                 then delete_prop (set_prop d ''content'' cc) ''reasoning_content'' else d) data"
      by (cases o1) (auto simp: transform_def rewrite_delta_def)
    show ?thesis
    proof (cases "truthy cc")
      case t: True
      then show ?thesis using True cb o1 st d' gd by (simp add: get_delta_put get_prop_delete)
    next
      case f: False
      have "\<not> truthy_val (get_prop d ''reasoning_content'')"
        using combine_truthy_reasoning[of "get_prop d ''reasoning_content''" started
            "get_prop d ''content''" st1 cc] cb o1 f
        by auto
      then show ?thesis using True cb o1 st d' gd f by (simp add: put_delta_same)
    qed
  qed
qed

theorem reasoning_stripped_when_text_witness:
  \<open>transform True False (delta_frame [(''reasoning_content'', JStr ''ab'')])
     = (True, Some (delta_frame [(''content'', JStr ''<think>\<newline>ab'')]))
   \<and> get_prop (JObj [(''content'', JStr ''<think>\<newline>ab'')]) ''reasoning_content'' = None\<close>
proof -
  have gd: "get_delta (delta_frame [(''reasoning_content'', JStr ''ab'')])
      = Some (JObj [(''reasoning_content'', JStr ''ab'')])"
    by (simp add: delta_frame_def get_delta_def)
  have td: "truthy (JObj [(''reasoning_content'', JStr ''ab'')])" by simp
  have tr: "transform True False (delta_frame [(''reasoning_content'', JStr ''ab'')])
     = (True, Some (delta_frame [(''content'', JStr ''<think>\<newline>ab'')]))"
    by (simp add: transform_def rewrite_delta_def delta_frame_def get_delta_def combine_def)
  from reasoning_stripped_when_text[OF gd td tr] tr
  show ?thesis by (simp add: delta_frame_def get_delta_def)
qed

text \<open>
  The claim as stated includes the frames whose combined text is empty. There the guard of
  line 278 skips the \<^verbatim>\<open>delete\<close>: a delta that carries an empty \<^verbatim>\<open>reasoning_content\<close> is
  written with the field still in it.
\<close>

theorem reasoning_kept_counterexample:
  \<open>written (on_data sample_parse SHOW_REASONING
       ''data: {"choices":[{"delta":{"reasoning_content":""}}]}\<newline>'' init_state)
     = [Json (delta_frame [(''reasoning_content'', JStr [])])]
   \<and> get_prop (JObj [(''reasoning_content'', JStr [])]) ''reasoning_content'' = Some (JStr [])\<close>
  by (simp add: SHOW_REASONING_def on_data_def framer_def on_line_def init_state_def
      pop_def byte_def blank.simps ws_len_def sample_parse_def delta_frame_def transform_def
      get_delta_def rewrite_delta_def combine_def)

subsection \<open>C4: which lines terminate\<close>

text \<open>
  Claim C4 says that a data line is answered with the sentinel only when its payload is the
  sentinel, and that a line whose JSON payload merely contains the sentinel text is decoded
  and transformed. Line 250 tests \<^verbatim>\<open>line.includes('[DONE]')\<close>: the data line below, a
  content delta whose text is \<^verbatim>\<open>[DONE]\<close>, is answered with the sentinel frame, whatever
  \<^verbatim>\<open>JSON.parse\<close> would return for it, and its delta is dropped.
\<close>

theorem sentinel_substring_short_circuit:
  \<open>on_line parse sr ''data: {"choices":[{"delta":{"content":"[DONE]"}}]}'' st
     = st\<lparr>written := written st @ [Done]\<rparr>\<close>
  by (simp add: on_line_def blank.simps ws_len_def byte_def)

subsection \<open>C5: the framer and the boundaries of chunks\<close>

text \<open>
  On the decoded text the framer is what the specification describes: the lines it
  yields and the remainder it keeps are the split of the concatenation of the decoded
  chunks, so no decoded character is lost or repeated, and a chunk that brings no newline
  yields no line.
\<close>

lemma framer_conserves_decoded:
  assumes "framer_all [] chunks = (ls, rest)"
  shows "join_nl (ls @ [rest]) = concat (map toString chunks)"
proof -
  have "ls @ [rest] = split_nl (concat (map toString chunks))"
    using assms framer_all_decoded[of "[]" chunks]
      append_butlast_last_id[OF split_nl_nonempty, of "concat (map toString chunks)"]
    by auto
  then show ?thesis by (simp add: join_split)
qed

lemma framer_split_invariant_decoded:
  assumes "toString (concat chunks) = concat (map toString chunks)"
  shows "framer_all [] chunks = framer_all [] [concat chunks]"
  using assms framer_all_decoded[of "[]" chunks] framer_all_decoded[of "[]" "[concat chunks]"]
  by simp

lemma framer_split_invariant_ascii:
  assumes "\<forall>c\<in>set (concat chunks). byte c < 0x80"
  shows "framer_all [] chunks = framer_all [] [concat chunks]"
proof -
  have "map toString chunks = chunks"
    using assms by (intro map_idI toString_ascii) auto
  moreover have "toString (concat chunks) = concat chunks"
    using assms by (rule toString_ascii)
  ultimately show ?thesis by (intro framer_split_invariant_decoded) simp
qed

lemma framer_no_complete_line:
  assumes "CHR 0x0A \<notin> set buf" "CHR 0x0A \<notin> set (toString chunk)"
  shows "framer buf chunk = ([], buf @ toString chunk)"
  using assms by (simp add: framer_eq split_nl_no_newline)

text \<open>
  Claim C5 speaks of chunks cut at arbitrary byte boundaries. Line 242 decodes every
  chunk by itself, so a boundary inside a multi-byte character breaks the claim: the
  three bytes of U+00E9 and a newline (C3 A9 0A) give the line C3 A9 as one chunk, and a
  line of two U+FFFD characters when the chunk boundary follows the byte C3.
\<close>

theorem split_inside_character:
  "framer_all [] [[CHR 0xC3, CHR 0xA9, CHR 0x0A]] = ([[CHR 0xC3, CHR 0xA9]], [])
   \<and> framer_all [] [[CHR 0xC3], [CHR 0xA9, CHR 0x0A]]
       = ([[CHR 0xEF, CHR 0xBF, CHR 0xBD, CHR 0xEF, CHR 0xBF, CHR 0xBD]], [])"
  by (simp add: framer_def pop_def byte_def in_range_def replacement_def second_lo_def second_hi_def)

subsection \<open>C6: reasoning display disabled\<close>

text \<open>
  Claim C6. With reasoning display disabled, for every parsed event whose
  \<^verbatim>\<open>choices[0].delta\<close> is an object, the outbound delta has a \<^verbatim>\<open>content\<close> property, equal
  to the inbound content when that is a string (or any truthy value) and the empty string
  when it is absent (or falsy), and has no \<^verbatim>\<open>reasoning_content\<close>; the flag is untouched.
\<close>

theorem mode_off_guarantee:
  assumes gd: "get_delta data = Some (JObj kvs)"
  shows "\<exists>data' kvs'. transform False started data = (started, Some data')
           \<and> get_delta data' = Some (JObj kvs')
           \<and> map_of kvs' ''content'' =
               Some (case map_of kvs ''content'' of
                       None \<Rightarrow> JStr []
                     | Some c \<Rightarrow> if truthy c then c else JStr [])
           \<and> (map_of kvs ''content'' = Some (JStr s) \<longrightarrow> map_of kvs' ''content'' = Some (JStr s))
           \<and> (map_of kvs ''content'' = None \<longrightarrow> map_of kvs' ''content'' = Some (JStr []))
           \<and> map_of kvs' ''reasoning_content'' = None"
proof -
  have nn: "data \<noteq> JNull" using gd by (auto simp: get_delta_def)
  show ?thesis
    using gd nn
    by (auto simp: transform_def rewrite_delta_def get_delta_put delete_conv' update_conv'
        split: option.splits)
qed

theorem mode_off_guarantee_witness:
  \<open>transform False True (delta_frame [(''reasoning_content'', JStr ''ab'')])
     = (True, Some (delta_frame [(''content'', JStr [])]))\<close>
proof -
  have gd: "get_delta (delta_frame [(''reasoning_content'', JStr ''ab'')])
      = Some (JObj [(''reasoning_content'', JStr ''ab'')])"
    by (simp add: delta_frame_def get_delta_def)
  from mode_off_guarantee[OF gd, of True]
  show ?thesis by (simp add: transform_def rewrite_delta_def delta_frame_def get_delta_def)
qed

subsection \<open>C7: a malformed frame is passed through\<close>

text \<open>
  Claim C7. When \<^verbatim>\<open>JSON.parse\<close> rejects \<^verbatim>\<open>{not json\<close>, the line \<^verbatim>\<open>data: {not json\<close>
  followed by the sentinel line writes the raw line, framed as its own event, and then the
  sentinel; nothing else of the state changes (the flag in particular), whether the two
  lines come from the line loop in any state or as one chunk of a fresh request; and the
  lines after the malformed one are processed as usual.
\<close>

theorem malformed_frame_pass_through:
  assumes bad: "parse ''{not json'' = None"
  shows \<open>process_lines parse sr [''data: {not json'', ''data: [DONE]''] st
           = st\<lparr>written := written st @ [Raw ''data: {not json'', Done]\<rparr>
       \<and> on_data parse sr ''data: {not json\<newline>data: [DONE]\<newline>'' init_state
           = init_state\<lparr>hasStarted := True, written := [Raw ''data: {not json'', Done]\<rparr>
       \<and> map (wire stringify) [Raw ''data: {not json'', Done]
           = [''data: {not json\<newline>\<newline>'', ''data: [DONE]\<newline>\<newline>'']
       \<and> process_lines parse sr (''data: {not json'' # rest) st
           = process_lines parse sr rest (st\<lparr>written := written st @ [Raw ''data: {not json'']\<rparr>)\<close>
  using bad
  by (simp add: on_data_def framer_def on_line_def init_state_def pop_def byte_def blank.simps ws_len_def)

theorem malformed_frame_pass_through_witness:
  \<open>sample_parse ''{not json'' = None
   \<and> written (on_data sample_parse True ''data: {not json\<newline>data: [DONE]\<newline>'' init_state)
       = [Raw ''data: {not json'', Done]
   \<and> reasoningStarted (on_data sample_parse True ''data: {not json\<newline>data: [DONE]\<newline>'' init_state)
       = False\<close>
proof -
  have h: "sample_parse ''{not json'' = None" by (simp add: sample_parse_def)
  from malformed_frame_pass_through[where parse = sample_parse and sr = True and st = init_state, OF h] h
  show ?thesis by (simp add: init_state_def)
qed

subsection \<open>C8: what is written after a sentinel\<close>

text \<open>
  Claim C8 (as amended). The sentinel line \<^verbatim>\<open>data: [DONE]\<close> writes the sentinel and
  nothing else for that line, and changes nothing else of the state; the lines after it
  are processed as usual. For a source that emits at most one end or error signal and
  nothing after it, finalization runs at most once per request: without a signal the
  sink stays open, and with one the handler appends its own frames, of which a further
  sentinel is the last, closes the sink, and nothing is written afterwards. When no other
  data line of the request contains the sentinel text, the sink then holds one sentinel
  more than the sentinel lines received (and as many as those lines before the signal).
\<close>

theorem sentinel_per_line_and_finalizer:
  assumes src: "source_ok events"
      and ns: "no_stray_sentinel_text (fst (framer_all [] (chunks_of events)))"
  shows "on_line parse sr ''data: [DONE]'' st = st\<lparr>written := written st @ [Done]\<rparr>
   \<and> process_lines parse sr (''data: [DONE]'' # rest) st
       = process_lines parse sr rest (st\<lparr>written := written st @ [Done]\<rparr>)
   \<and> finalizer_runs events \<le> 1
   \<and> (case signal_of events of
        None \<Rightarrow>
          deliver parse sr events init_state = feed parse sr (chunks_of events) init_state
          \<and> \<not> ended (deliver parse sr events init_state)
          \<and> sentinels (written (deliver parse sr events init_state))
              = length (filter is_sentinel_line (fst (framer_all [] (chunks_of events))))
      | Some sig \<Rightarrow>
          deliver parse sr events init_state = request parse sr (chunks_of events) sig
          \<and> finalizer_runs events = 1
          \<and> written (deliver parse sr events init_state)
              = written (feed parse sr (chunks_of events) init_state)
                @ finish_frames sig (reasoningStarted (feed parse sr (chunks_of events) init_state))
          \<and> last (written (deliver parse sr events init_state)) = Done
          \<and> ended (deliver parse sr events init_state)
          \<and> sentinels (written (deliver parse sr events init_state))
              = length (filter is_sentinel_line (fst (framer_all [] (chunks_of events)))) + 1)"
proof -
  let ?chunks = "chunks_of events"
  let ?st = "feed parse sr ?chunks init_state"
  have sl: "short_circuited ''data: [DONE]''" by (simp add: short_circuited_def)
  have a: "on_line parse sr ''data: [DONE]'' st = st\<lparr>written := written st @ [Done]\<rparr>" for st
    using sl by (rule on_line_sentinel)
  have b: "process_lines parse sr (''data: [DONE]'' # rest) st
       = process_lines parse sr rest (st\<lparr>written := written st @ [Done]\<rparr>)"
    by (simp add: a)
  have fs: "sentinels (written ?st) = length (filter is_sentinel_line (fst (framer_all [] ?chunks)))"
    using feed_sentinels[of parse sr ?chunks init_state] filter_no_stray[OF ns]
    by (simp add: init_state_def sentinels_def)
  have ne: "\<not> ended ?st" by (simp add: init_state_def)
  show ?thesis
  proof (cases "signal_of events")
    case None
    with deliver_source_ok[OF src, of parse sr init_state] finalizer_runs_source_ok[OF src] a b fs ne
    show ?thesis by simp
  next
    case (Some sig)
    have d: "deliver parse sr events init_state = request parse sr ?chunks sig"
      using deliver_source_ok[OF src, of parse sr init_state] Some by (simp add: request_def)
    have w: "written (request parse sr ?chunks sig) = written ?st @ finish_frames sig (reasoningStarted ?st)"
      by (simp add: request_def finish_written)
    have l: "last (written (request parse sr ?chunks sig)) = Done"
      unfolding w by (cases sig) auto
    have s1: "sentinels (finish_frames sig (reasoningStarted ?st)) = 1"
      by (cases sig) (auto simp: sentinels_def)
    have c: "sentinels (written (request parse sr ?chunks sig))
        = length (filter is_sentinel_line (fst (framer_all [] ?chunks))) + 1"
      unfolding w using fs s1 by (simp add: sentinels_def)
    have e: "ended (request parse sr ?chunks sig)"
      by (simp add: request_def finish_ended)
    from Some d w l c e a b finalizer_runs_source_ok[OF src]
    show ?thesis by simp
  qed
qed

theorem sentinel_per_line_and_finalizer_witness:
  \<open>source_ok [Chunk ''data: [DONE]\<newline>data: {"choices":[{"delta":{"content":"X"}}]}\<newline>'', Signal End]
   \<and> no_stray_sentinel_text (fst (framer_all []
        (chunks_of [Chunk ''data: [DONE]\<newline>data: {"choices":[{"delta":{"content":"X"}}]}\<newline>'', Signal End])))
   \<and> finalizer_runs [Chunk ''data: [DONE]\<newline>data: {"choices":[{"delta":{"content":"X"}}]}\<newline>'', Signal End] = 1
   \<and> written (deliver sample_parse True
        [Chunk ''data: [DONE]\<newline>data: {"choices":[{"delta":{"content":"X"}}]}\<newline>'', Signal End] init_state)
       = [Done, Json (delta_frame [(''content'', JStr ''X'')]), Done]
   \<and> sentinels (written (deliver sample_parse True
        [Chunk ''data: [DONE]\<newline>data: {"choices":[{"delta":{"content":"X"}}]}\<newline>'', Signal End] init_state)) = 2\<close>
proof -
  let ?ev = \<open>[Chunk ''data: [DONE]\<newline>data: {"choices":[{"delta":{"content":"X"}}]}\<newline>'', Signal End]\<close>
  have src: "source_ok ?ev" by simp
  have ns: "no_stray_sentinel_text (fst (framer_all [] (chunks_of ?ev)))"
    by (simp add: framer_def pop_def byte_def short_circuited_def is_sentinel_line_def)
  have n: "length (filter is_sentinel_line (fst (framer_all [] (chunks_of ?ev)))) = 1"
    by (simp add: framer_def pop_def byte_def is_sentinel_line_def)
  have sg: "signal_of ?ev = Some End" by simp
  have w: \<open>written (request sample_parse True (chunks_of ?ev) End)
       = [Done, Json (delta_frame [(''content'', JStr ''X'')]), Done]\<close>
    by (simp add: request_def on_data_def framer_def on_line_def init_state_def
      pop_def byte_def blank.simps ws_len_def sample_parse_def delta_frame_def transform_def
      get_delta_def rewrite_delta_def combine_def on_end_def)
  note t = sentinel_per_line_and_finalizer[OF src ns, where parse = sample_parse and sr = True]
  from t have d: "deliver sample_parse True ?ev init_state = request sample_parse True (chunks_of ?ev) End"
    and r: "finalizer_runs ?ev = 1"
    and c: "sentinels (written (deliver sample_parse True ?ev init_state))
        = length (filter is_sentinel_line (fst (framer_all [] (chunks_of ?ev)))) + 1"
    unfolding sg option.case by blast+
  have w': \<open>written (deliver sample_parse True ?ev init_state)
       = [Done, Json (delta_frame [(''content'', JStr ''X'')]), Done]\<close>
    unfolding d by (rule w)
  have c': "sentinels (written (deliver sample_parse True ?ev init_state)) = 2"
    unfolding c n by simp
  from src ns r w' c' show ?thesis by blast
qed

text \<open>
  The claim as stated lets nothing follow the first sentinel. A sentinel line followed by a
  content line in the same chunk, and then the end signal, writes the sentinel, the
  content frame and a second sentinel.
\<close>

theorem writes_after_sentinel_counterexample:
  \<open>written (request sample_parse SHOW_REASONING
       [''data: [DONE]\<newline>data: {"choices":[{"delta":{"content":"X"}}]}\<newline>''] End)
     = [Done, Json (delta_frame [(''content'', JStr ''X'')]), Done]\<close>
  by (simp add: request_def SHOW_REASONING_def on_data_def framer_def on_line_def init_state_def
      pop_def byte_def blank.simps ws_len_def sample_parse_def delta_frame_def transform_def
      get_delta_def rewrite_delta_def combine_def on_end_def)

subsection \<open>C9: finalization on error\<close>

text \<open>
  Claim C9. On the error signal the handler writes one frame that carries the message of
  the error and nothing else of it, then the sentinel, and closes the sink: these two
  frames follow whatever the chunks wrote, the request holds exactly one error frame, the
  text of the frames is the one of lines 317--318, and the handler reads no other property
  of the error.
\<close>

theorem error_finalization:
  \<open>on_error err st = st\<lparr>written := written st @ [ErrorFrame (message err), Done], ended := True\<rparr>
   \<and> written (request parse sr chunks (Error err))
       = written (feed parse sr chunks init_state) @ [ErrorFrame (message err), Done]
   \<and> ended (request parse sr chunks (Error err))
   \<and> length (filter is_error_frame (written (request parse sr chunks (Error err)))) = 1
   \<and> map (wire stringify) [ErrorFrame (message err), Done]
       = [''data: {"error": "'' @ message err @ ''"}\<newline>\<newline>'', ''data: [DONE]\<newline>\<newline>'']
   \<and> on_error (err\<lparr>name := n, stack := s\<rparr>) st = on_error err st\<close>
proof -
  have "length (filter is_error_frame (written (feed parse sr chunks init_state))) = 0"
    using feed_no_error_frame[of parse sr chunks init_state] by (simp add: init_state_def)
  then show ?thesis
    by (simp add: request_def on_error_def)
qed

theorem error_finalization_witness:
  \<open>map (wire (\<lambda>d. [])) (written (request sample_parse True
       [''data: {"choices":[{"delta":{"content":"X"}}]}\<newline>'']
       (Error \<lparr>name = ''Error'', message = ''aborted'', stack = ''at x''\<rparr>)))
     = [''data: \<newline>\<newline>'', ''data: {"error": "aborted"}\<newline>\<newline>'', ''data: [DONE]\<newline>\<newline>'']\<close>
proof -
  have f: \<open>written (feed sample_parse True
       [''data: {"choices":[{"delta":{"content":"X"}}]}\<newline>''] init_state)
     = [Json (delta_frame [(''content'', JStr ''X'')])]\<close>
    by (simp add: on_data_def framer_def on_line_def init_state_def
      pop_def byte_def blank.simps ws_len_def sample_parse_def delta_frame_def transform_def
      get_delta_def rewrite_delta_def combine_def)
  from error_finalization[of "\<lparr>name = ''Error'', message = ''aborted'', stack = ''at x''\<rparr>"
     init_state sample_parse True \<open>[''data: {"choices":[{"delta":{"content":"X"}}]}\<newline>'']\<close>] f
  show ?thesis by simp
qed

subsection \<open>C10: empty strings count as absent\<close>

text \<open>
  Claim C10. The combiner tests its fields for truthiness: an empty string for
  \<^verbatim>\<open>reasoning_content\<close> or for \<^verbatim>\<open>content\<close> gives the same text and the same flag as a
  missing field, so an empty reasoning fragment neither opens a block nor changes the
  flag; and with reasoning display enabled a data line whose delta has both fields absent
  or empty is written as the parsed object, unmodified, with the flag unchanged.
\<close>

theorem empty_strings_as_absent:
  assumes gd: "get_delta data = Some d"
      and er: "get_prop d ''reasoning_content'' = None \<or> get_prop d ''reasoning_content'' = Some (JStr [])"
      and ec: "get_prop d ''content'' = None \<or> get_prop d ''content'' = Some (JStr [])"
      and dl: "prefix ''data: '' line" "\<not> includes_str line ''[DONE]''"
      and ps: "parse (drop 6 line) = Some data"
  shows "combine started (Some (JStr [])) c = combine started None c
       \<and> combine started r (Some (JStr [])) = combine started r None
       \<and> reasoning_step started (Some (JStr [])) = Some (started, JStr [])
       \<and> transform True started data = (started, Some data)
       \<and> on_line parse True line st = st\<lparr>written := written st @ [Json data]\<rparr>"
proof -
  have nn: "data \<noteq> JNull" using gd by (auto simp: get_delta_def)
  have tr: "transform True started data = (started, Some data)" for started
  proof -
    have "combine started (get_prop d ''reasoning_content'') (get_prop d ''content'')
        = (started, Some (JStr []))"
      using er ec by (auto simp: combine_def)
    then show ?thesis
      using gd nn by (simp add: transform_def rewrite_delta_def put_delta_same)
  qed
  have nb: "\<not> blank line" using dl(1) blank_not_data by blast
  have ol: "on_line parse True line st = st\<lparr>written := written st @ [Json data]\<rparr>"
    using nb dl ps tr[of "reasoningStarted st"] by (simp add: on_line_def)
  from combine_empty_reasoning combine_empty_content tr ol show ?thesis by simp
qed

theorem empty_strings_as_absent_witness:
  \<open>written (on_line sample_parse True ''data: {"choices":[{"delta":{"reasoning_content":""}}]}'' init_state)
     = [Json (delta_frame [(''reasoning_content'', JStr [])])]
   \<and> reasoningStarted (on_line sample_parse True
        ''data: {"choices":[{"delta":{"reasoning_content":""}}]}'' init_state)
     = False\<close>
proof -
  have gd: "get_delta (delta_frame [(''reasoning_content'', JStr [])])
      = Some (JObj [(''reasoning_content'', JStr [])])"
    by (simp add: delta_frame_def get_delta_def)
  have er: "get_prop (JObj [(''reasoning_content'', JStr [])]) ''reasoning_content'' = None
      \<or> get_prop (JObj [(''reasoning_content'', JStr [])]) ''reasoning_content'' = Some (JStr [])"
    and ec: "get_prop (JObj [(''reasoning_content'', JStr [])]) ''content'' = None
      \<or> get_prop (JObj [(''reasoning_content'', JStr [])]) ''content'' = Some (JStr [])"
    by simp_all
  have dl: \<open>prefix ''data: '' ''data: {"choices":[{"delta":{"reasoning_content":""}}]}''\<close>
       \<open>\<not> includes_str ''data: {"choices":[{"delta":{"reasoning_content":""}}]}'' ''[DONE]''\<close>
    by simp_all
  have ps: \<open>sample_parse (drop 6 ''data: {"choices":[{"delta":{"reasoning_content":""}}]}'')
      = Some (delta_frame [(''reasoning_content'', JStr [])])\<close>
    by (simp add: sample_parse_def)
  from empty_strings_as_absent[where parse = sample_parse and st = init_state, OF gd er ec dl ps]
  show ?thesis by (simp add: init_state_def)
qed

end
